theory Spec2Isabelle
  imports Main "HOL-Library.Word" "HOL-Library.Multiset"
begin

unbundle bit_operations_syntax

section \<open>JavaScript values used by the front end\<close>

text \<open>
  A JavaScript string is modelled as a \<^typ>\<open>string\<close>, a value of type
  \<^verbatim>\<open>string | null\<close> (or an optional property) as a \<^typ>\<open>string option\<close>.
  A condition \<^verbatim>\<open>if (s)\<close> on such a value holds when the value is neither
  \<^verbatim>\<open>null\<close>/\<^verbatim>\<open>undefined\<close> nor the empty string.
\<close>

definition truthy :: "string option \<Rightarrow> bool" where
  "truthy v = (case v of None \<Rightarrow> False | Some s \<Rightarrow> s \<noteq> [])"

text \<open>
  \<^verbatim>\<open>xs.slice(0, end)\<close>: a negative \<^verbatim>\<open>end\<close> counts from the end of the
  array, an \<^verbatim>\<open>end\<close> past the length is clamped.
\<close>

definition js_slice0 :: "int \<Rightarrow> 'a list \<Rightarrow> 'a list" where
  "js_slice0 e xs =
     (if e < 0 then take (nat (int (length xs) + e)) xs else take (nat e) xs)"

section \<open>MultiImageGridUploader.handleFiles\<close>

text \<open>
  \<^verbatim>\<open>
  const handleFiles = useCallback((files: FileList) => {
      const newUrls: string[] = [];
      const filesToProcess = Array.from(files).slice(0, maxImages - imageUrls.length);
      if (filesToProcess.length === 0) return;
      let processedCount = 0;
      filesToProcess.forEach(file => {
          const reader = new FileReader();
          reader.onload = (e) => {
              newUrls.push(e.target?.result as string);
              processedCount++;
              if (processedCount === filesToProcess.length) {
                  const allUrls = [...imageUrls, ...newUrls];
                  onImagesChange(allUrls);
              }
          };
          reader.readAsDataURL(file);
      });
  }, [imageUrls, maxImages, onImagesChange]);
  \<close>
  A file of the list is modelled by what its \<^verbatim>\<open>FileReader\<close> does: the data URL it
  loads (\<open>None\<close> when the read fails, so that \<^verbatim>\<open>onload\<close> never fires) and the
  time at which \<^verbatim>\<open>onload\<close> fires. The URLs are pushed in the order in which the
  readers finish. The result is the list handed to \<^verbatim>\<open>onImagesChange\<close>, or
  \<open>None\<close> when the callback is never called.
\<close>

record file_read =
  data_url :: "string option"
  loaded_at :: nat

definition handleFiles :: "int \<Rightarrow> string list \<Rightarrow> file_read list \<Rightarrow> string list option" where
  "handleFiles maxImages imageUrls files =
     (let filesToProcess = js_slice0 (maxImages - int (length imageUrls)) files in
      if length filesToProcess = 0 then None
      else if list_ex (\<lambda>f. data_url f = None) filesToProcess then None
      else
        let newUrls = map (\<lambda>f. the (data_url f)) (sort_key loaded_at filesToProcess);
            allUrls = imageUrls @ newUrls
        in Some allUrls)"

section \<open>App.applyWatermarks\<close>

text \<open>
  \<^verbatim>\<open>
  const applyWatermarks = useCallback(async (imageUrl: string | null) => {
    if (!imageUrl) return null;
    try {
      const invisiblyWatermarked = await embedWatermark(imageUrl, "Nano Bananary|ZHO");
      const visiblyWatermarked = await addVisibleWatermark(invisiblyWatermarked, "Nano Bananary|ZHO");
      return visiblyWatermarked;
    } catch (err) {
      console.error("Failed to apply watermarks", err);
      return imageUrl; // Return original image on any watermarking failure
    }
  }, []);
  \<close>
  The two steps come from \<^verbatim>\<open>utils/fileUtils\<close> and are parameters of the model: each
  takes an image URL and the stamp text and either throws (\<open>Inl\<close>) or returns a URL.
  The bar of the stamp text is the full-width U+FF5C (an ASCII bar in the lines above),
  written in \<open>watermark_text\<close> as its UTF-8 bytes.
  A run of \<^verbatim>\<open>applyWatermarks\<close> is modelled by the calls of the two steps that it
  makes, each with its outcome, and by what it returns; the returned value is a sum, so
  that an error leaving \<^verbatim>\<open>applyWatermarks\<close> would show as \<open>Inl\<close>.
\<close>

definition watermark_text :: string where
  "watermark_text = ''Nano Bananary'' @ [CHR 0xEF, CHR 0xBD, CHR 0x9C] @ ''ZHO''"

type_synonym 'e watermark_step = "string \<Rightarrow> string \<Rightarrow> 'e + string"

datatype step_name = EmbedWatermark | AddVisibleWatermark

record 'e watermark_run =
  step_calls :: "(step_name \<times> ('e + string)) list"
  returned :: "'e + string option"

definition threw :: "(step_name \<times> ('e + string)) \<Rightarrow> bool" where
  "threw call = isl (snd call)"

definition applyWatermarks ::
  "'e watermark_step \<Rightarrow> 'e watermark_step \<Rightarrow> string option \<Rightarrow> 'e watermark_run" where
  "applyWatermarks embedWatermark addVisibleWatermark imageUrl =
     (if \<not> truthy imageUrl then \<lparr>step_calls = [], returned = Inr None\<rparr>
      else
        let embedded = embedWatermark (the imageUrl) watermark_text in
        case embedded of
          Inl err \<Rightarrow>
            \<lparr>step_calls = [(EmbedWatermark, embedded)], returned = Inr imageUrl\<rparr>
        | Inr invisiblyWatermarked \<Rightarrow>
            let stamped = addVisibleWatermark invisiblyWatermarked watermark_text in
            case stamped of
              Inl err \<Rightarrow>
                \<lparr>step_calls = [(EmbedWatermark, embedded), (AddVisibleWatermark, stamped)],
                 returned = Inr imageUrl\<rparr>
            | Inr visiblyWatermarked \<Rightarrow>
                \<lparr>step_calls = [(EmbedWatermark, embedded), (AddVisibleWatermark, stamped)],
                 returned = Inr (Some visiblyWatermarked)\<rparr>)"

section \<open>The image service: editImage and generateImageEditsBatch\<close>

subsection \<open>Requests and responses\<close>

text \<open>
  The parts of a request as \<^verbatim>\<open>editImage\<close> builds them, and the fields of a response
  that it reads. An optional property is an \<open>option\<close>; \<^verbatim>\<open>content?.parts\<close> is one
  field, \<open>None\<close> when the content or its parts are missing. A safety rating whose
  \<^verbatim>\<open>blocked\<close> is missing counts as not blocked, as the filter of the source treats it.
\<close>

record image_part =
  base64 :: string
  mimeType :: string

datatype request_part = InlineData string string | TextPart string

record request =
  req_model :: string
  req_parts :: "request_part list"
  req_responseModalities :: "string list"

record inline_data =
  blob_mimeType :: "string option"
  blob_data :: "string option"

record response_part =
  part_text :: "string option"
  part_inlineData :: "inline_data option"

record safety_rating =
  blocked :: bool
  category :: "string option"

record candidate =
  content_parts :: "response_part list option"
  finishReason :: "string option"
  safetyRatings :: "safety_rating list option"

record response =
  candidates :: "candidate list option"

record GeneratedContent =
  imageUrl :: "string option"
  gc_text :: "string option"

text \<open>
  What a \<^verbatim>\<open>catch\<close> receives: an \<^verbatim>\<open>Error\<close> with its message, or any other value.
  The call of the remote model either rejects with such a value or resolves with a response.
\<close>

datatype thrown = Error string | NonError

datatype api_outcome = Rejected thrown | Resolved response

subsection \<open>String helpers of the platform\<close>

text \<open>A template literal prints a missing value as \<^verbatim>\<open>undefined\<close>.\<close>

definition js_string :: "string option \<Rightarrow> string" where
  "js_string v = (case v of None \<Rightarrow> ''undefined'' | Some s \<Rightarrow> s)"

text \<open>\<^verbatim>\<open>Array.prototype.join\<close>: a missing element is printed as the empty string.\<close>

fun js_join :: "string \<Rightarrow> string option list \<Rightarrow> string" where
  "js_join sep [] = []"
| "js_join sep [x] = (case x of None \<Rightarrow> [] | Some s \<Rightarrow> s)"
| "js_join sep (x # y # ys) = (case x of None \<Rightarrow> [] | Some s \<Rightarrow> s) @ sep @ js_join sep (y # ys)"

text \<open>
  The \<^verbatim>\<open>catch\<close> block passes the message to \<^verbatim>\<open>JSON.parse\<close> and reads
  \<^verbatim>\<open>error.message\<close>, \<^verbatim>\<open>error.status\<close> and \<^verbatim>\<open>error.code\<close> of what comes back.
  \<^verbatim>\<open>JSON.parse\<close> is the platform's and a parameter here: it gives the three fields when
  the text parses to an object whose \<^verbatim>\<open>error.message\<close> is truthy, and \<open>None\<close> in every
  other case (the parse throws, reading the property throws, or the test fails), all of
  which leave the message as it was. One fact of JSON is part of the model: only a text
  whose first character after white space is an opening brace parses to an object.
\<close>

record api_error_body =
  err_message :: string
  err_status :: "string option"
  err_code :: "int option"

type_synonym json_parser = "string \<Rightarrow> api_error_body option"

definition json_ws :: "char \<Rightarrow> bool" where
  "json_ws c = (c \<in> {CHR '' '', CHR 0x09, CHR 0x0A, CHR 0x0D})"

definition JSON_parse_error :: "json_parser \<Rightarrow> string \<Rightarrow> api_error_body option" where
  "JSON_parse_error parse s =
     (case dropWhile json_ws s of
        [] \<Rightarrow> None
      | c # _ \<Rightarrow> if c = CHR ''{'' then parse s else None)"

subsection \<open>editImage\<close>

text \<open>
  \<^verbatim>\<open>
  let fullPrompt = prompt;
  const parts: any[] = [];
  if (imageParts.length > 0) {
      parts.push({ inlineData: { data: imageParts[0].base64, mimeType: imageParts[0].mimeType } });
  }
  if (maskBase64) {
    parts.push({ inlineData: { data: maskBase64, mimeType: 'image/png' } });
    fullPrompt = `Apply the following instruction only to the masked area of the image: "${prompt}". Preserve the unmasked area.`;
  }
  if (imageParts.length > 1) {
      imageParts.slice(1).forEach(img => {
          parts.push({ inlineData: { data: img.base64, mimeType: img.mimeType } });
      });
  }
  parts.push({ text: fullPrompt });
  const response = await ai.models.generateContent({
    model: 'gemini-2.5-flash-image-preview', contents: { parts },
    config: { responseModalities: [Modality.IMAGE, Modality.TEXT] } });
  \<close>
\<close>

definition inline_of :: "image_part \<Rightarrow> request_part" where
  "inline_of img = InlineData (base64 img) (mimeType img)"

definition edit_request :: "string \<Rightarrow> image_part list \<Rightarrow> string option \<Rightarrow> request" where
  "edit_request prompt imageParts maskBase64 =
     (let primary = (case imageParts of [] \<Rightarrow> [] | img # _ \<Rightarrow> [inline_of img]);
          maskPart = (if truthy maskBase64 then [InlineData (the maskBase64) ''image/png''] else []);
          fullPrompt =
            (if truthy maskBase64
             then ''Apply the following instruction only to the masked area of the image: ''
                    @ [CHR 0x22] @ prompt @ [CHR 0x22] @ ''. Preserve the unmasked area.''
             else prompt);
          others = (if length imageParts > 1 then map inline_of (drop 1 imageParts) else [])
      in \<lparr>req_model = ''gemini-2.5-flash-image-preview'',
          req_parts = primary @ maskPart @ others @ [TextPart fullPrompt],
          req_responseModalities = [''IMAGE'', ''TEXT'']\<rparr>)"

text \<open>
  \<^verbatim>\<open>
  const result: GeneratedContent = { imageUrl: null, text: null };
  const responseParts = response.candidates?.[0]?.content?.parts;
  if (responseParts) {
    for (const part of responseParts) {
      if (part.text) {
        result.text = (result.text ? result.text + "\n" : "") + part.text;
      } else if (part.inlineData) {
        result.imageUrl = `data:${part.inlineData.mimeType};base64,${part.inlineData.data}`;
      }
    }
  }
  \<close>
\<close>

definition first_candidate :: "response \<Rightarrow> candidate option" where
  "first_candidate r =
     (case candidates r of None \<Rightarrow> None | Some [] \<Rightarrow> None | Some (c # _) \<Rightarrow> Some c)"

definition data_uri :: "inline_data \<Rightarrow> string" where
  "data_uri d = ''data:'' @ js_string (blob_mimeType d) @ '';base64,'' @ js_string (blob_data d)"

definition add_part :: "GeneratedContent \<Rightarrow> response_part \<Rightarrow> GeneratedContent" where
  "add_part result part =
     (if truthy (part_text part)
      then result\<lparr>gc_text :=
             Some ((if truthy (gc_text result) then the (gc_text result) @ [CHR 0x0A] else [])
                   @ the (part_text part))\<rparr>
      else case part_inlineData part of
             Some d \<Rightarrow> result\<lparr>imageUrl := Some (data_uri d)\<rparr>
           | None \<Rightarrow> result)"

definition collect_parts :: "response \<Rightarrow> GeneratedContent" where
  "collect_parts r =
     (let result = \<lparr>imageUrl = None, gc_text = None\<rparr> in
      case first_candidate r of
        None \<Rightarrow> result
      | Some c \<Rightarrow>
          (case content_parts c of
             None \<Rightarrow> result
           | Some responseParts \<Rightarrow> foldl add_part result responseParts))"

text \<open>
  \<^verbatim>\<open>
  if (!result.imageUrl) {
      let errorMessage;
      if (result.text) {
          errorMessage = `The model responded: "${result.text}"`;
      } else {
          const finishReason = response.candidates?.[0]?.finishReason;
          const safetyRatings = response.candidates?.[0]?.safetyRatings;
          errorMessage = "The model did not return an image. It might have refused the request. Please try a different image or prompt.";
          if (finishReason === 'SAFETY') {
              const blockedCategories = safetyRatings?.filter(r => r.blocked).map(r => r.category).join(', ');
              errorMessage = `The request was blocked for safety reasons. Categories: ${blockedCategories || 'Unknown'}. Please modify your prompt or image.`;
          }
      }
      throw new Error(errorMessage);
  }
  return result;
  \<close>
\<close>

definition safety_prefix :: string where
  "safety_prefix = ''The request was blocked for safety reasons.''"

definition safety_message :: "string \<Rightarrow> string" where
  "safety_message cats =
     safety_prefix @ '' Categories: '' @ cats @ ''. Please modify your prompt or image.''"

text \<open>A message is safety-specific when it opens with the sentence about safety reasons.\<close>

definition is_safety_message :: "string \<Rightarrow> bool" where
  "is_safety_message msg = (take (length safety_prefix) msg = safety_prefix)"

definition blocked_categories :: "candidate option \<Rightarrow> string option" where
  "blocked_categories c =
     (case c of
        None \<Rightarrow> None
      | Some cand \<Rightarrow>
          (case safetyRatings cand of
             None \<Rightarrow> None
           | Some rs \<Rightarrow> Some (js_join '', '' (map category (filter blocked rs)))))"

definition candidate_finishReason :: "response \<Rightarrow> string option" where
  "candidate_finishReason r =
     (case first_candidate r of None \<Rightarrow> None | Some c \<Rightarrow> finishReason c)"

definition no_image_message :: "response \<Rightarrow> GeneratedContent \<Rightarrow> string" where
  "no_image_message r result =
     (if truthy (gc_text result)
      then ''The model responded: '' @ [CHR 0x22] @ the (gc_text result) @ [CHR 0x22]
      else
        let blockedCategories = blocked_categories (first_candidate r)
        in if candidate_finishReason r = Some ''SAFETY''
           then safety_message
                  (if truthy blockedCategories then the blockedCategories else ''Unknown'')
           else ''The model did not return an image. It might have refused the request. Please try a different image or prompt.'')"

text \<open>
  \<^verbatim>\<open>
  } catch (error) {
    console.error("Error calling Gemini API:", error);
    if (error instanceof Error) {
        let errorMessage = error.message;
        try {
            const parsedError = JSON.parse(errorMessage);
            if (parsedError.error && parsedError.error.message) {
                if (parsedError.error.status === 'RESOURCE_EXHAUSTED') {
                    errorMessage = "You've likely exceeded the request limit. Please wait a moment before trying again.";
                } else if (parsedError.error.code === 500 || parsedError.error.status === 'UNKNOWN') {
                    errorMessage = "An unexpected server error occurred. This might be a temporary issue. Please try again in a few moments.";
                } else {
                    errorMessage = parsedError.error.message;
                }
            }
        } catch (e) {}
        throw new Error(errorMessage);
    }
    throw new Error("An unknown error occurred while communicating with the API.");
  }
  \<close>
  The block catches the \<^verbatim>\<open>Error\<close> thrown for a response without an image as well
  as a rejection of the remote call.
\<close>

definition rethrow :: "json_parser \<Rightarrow> thrown \<Rightarrow> thrown" where
  "rethrow parse error =
     (case error of
        Error errorMessage \<Rightarrow>
          (case JSON_parse_error parse errorMessage of
             Some parsedError \<Rightarrow>
               if err_status parsedError = Some ''RESOURCE_EXHAUSTED''
               then Error ''You've likely exceeded the request limit. Please wait a moment before trying again.''
               else if err_code parsedError = Some 500 \<or> err_status parsedError = Some ''UNKNOWN''
               then Error ''An unexpected server error occurred. This might be a temporary issue. Please try again in a few moments.''
               else Error (err_message parsedError)
           | None \<Rightarrow> Error errorMessage)
      | NonError \<Rightarrow> Error ''An unknown error occurred while communicating with the API.'')"

definition editImage ::
  "json_parser \<Rightarrow> (request \<Rightarrow> api_outcome) \<Rightarrow> string \<Rightarrow> image_part list \<Rightarrow> string option
     \<Rightarrow> thrown + GeneratedContent" where
  "editImage parse generateContent prompt imageParts maskBase64 =
     (case generateContent (edit_request prompt imageParts maskBase64) of
        Rejected error \<Rightarrow> Inl (rethrow parse error)
      | Resolved response \<Rightarrow>
          let result = collect_parts response in
          if \<not> truthy (imageUrl result)
          then Inl (rethrow parse (Error (no_image_message response result)))
          else Inr result)"

subsection \<open>generateImageEditsBatch\<close>

text \<open>
  \<^verbatim>\<open>Promise.all\<close> over promises that each settle at some time with a rejection
  (\<open>Inl\<close>) or a value: it rejects with the reason of the child that rejects first
  (the lower index on a tie), and resolves with all values, in the order of the
  promises, when no child rejects.
\<close>

definition promise_all :: "(nat \<times> ('e + 'a)) list \<Rightarrow> 'e + 'a list" where
  "promise_all promises =
     (case sort_key fst (filter (\<lambda>p. isl (snd p)) promises) of
        [] \<Rightarrow> Inr (map (\<lambda>p. projr (snd p)) promises)
      | p # _ \<Rightarrow> Inl (projl (snd p)))"

text \<open>
  \<^verbatim>\<open>
  try {
      const promises: Promise<GeneratedContent>[] = [];
      for (let i = 0; i < 4; i++) {
          promises.push(editImage(prompt, imageParts, null));
      }
      const results = await Promise.all(promises);
      const imageUrls = results.map(r => r.imageUrl).filter((url): url is string => !!url);
      if (imageUrls.length === 0) {
        throw new Error("Failed to generate any image variations. The model may have refused the request.");
      }
      return imageUrls;
  } catch (error) {
      console.error("Error generating image edits batch:", error);
      if (error instanceof Error) {
          throw new Error(error.message);
      }
      throw new Error("An unknown error occurred during batch image generation.");
  }
  \<close>
  The remote model may answer each of the calls differently: \<open>calls i\<close> is its answer to
  the \<open>i\<close>-th call and \<open>settled_at i\<close> the time at which that call's promise settles.
\<close>

definition batch_children ::
  "json_parser \<Rightarrow> (nat \<Rightarrow> request \<Rightarrow> api_outcome) \<Rightarrow> string \<Rightarrow> image_part list
     \<Rightarrow> (thrown + GeneratedContent) list" where
  "batch_children parse calls prompt imageParts =
     map (\<lambda>i. editImage parse (calls i) prompt imageParts None) [0..<4]"

definition batch_imageUrls :: "GeneratedContent list \<Rightarrow> string list" where
  "batch_imageUrls results = map the (filter truthy (map imageUrl results))"

definition batch_rethrow :: "thrown \<Rightarrow> thrown" where
  "batch_rethrow error =
     (case error of
        Error message \<Rightarrow> Error message
      | NonError \<Rightarrow> Error ''An unknown error occurred during batch image generation.'')"

definition no_variations :: thrown where
  "no_variations =
     Error ''Failed to generate any image variations. The model may have refused the request.''"

definition generateImageEditsBatch ::
  "json_parser \<Rightarrow> (nat \<Rightarrow> request \<Rightarrow> api_outcome) \<Rightarrow> (nat \<Rightarrow> nat) \<Rightarrow> string \<Rightarrow> image_part list
     \<Rightarrow> thrown + string list" where
  "generateImageEditsBatch parse calls settled_at prompt imageParts =
     (case promise_all (zip (map settled_at [0..<4])
                          (batch_children parse calls prompt imageParts)) of
        Inl error \<Rightarrow> Inl (batch_rethrow error)
      | Inr results \<Rightarrow>
          let imageUrls = batch_imageUrls results in
          if length imageUrls = 0 then Inl (batch_rethrow no_variations)
          else Inr imageUrls)"

section \<open>The watermark codec\<close>

text \<open>
  The codec (\<^verbatim>\<open>embedWatermark\<close> and \<^verbatim>\<open>addVisibleWatermark\<close> of
  \<^verbatim>\<open>utils/fileUtils\<close>) is not among the source files; only its caller
  \<^verbatim>\<open>applyWatermarks\<close> is. Every definition of this section is therefore modelled
  from the specification (sections 3, 4.1, 4.2 and 7), which names the operations
  \<^verbatim>\<open>embedInvisible\<close> and \<^verbatim>\<open>decodeInvisible\<close>.
\<close>

subsection \<open>Image buffers\<close>

text \<open>
  Modelled from the spec: the pixel of the missing codec's Image Buffer (section 3),
  "four 8-bit channels (red, green, blue, alpha)".
\<close>

type_synonym byte = "8 word"

record pixel =
  red :: byte
  green :: byte
  blue :: byte
  alpha :: byte

text \<open>
  Modelled from the spec: the Image Buffer of the missing codec (section 3), "a rectangular
  grid of pixels", with the pixels stored in raster order (left to right, top to bottom).
\<close>

record image =
  width :: nat
  height :: nat
  pixels :: "pixel list"

text \<open>
  Modelled from the spec: what makes a buffer of the missing codec a rectangular grid, one
  pixel for each position.
\<close>

definition well_formed :: "image \<Rightarrow> bool" where
  "well_formed img = (length (pixels img) = width img * height img)"

text \<open>Modelled from the spec: the pixel count that the missing encoder's capacity check uses.\<close>

definition pixel_count :: "image \<Rightarrow> nat" where
  "pixel_count img = width img * height img"

text \<open>
  Modelled from the spec: the capacity of the missing encoder, in bits, "3 \<times> pixel count
  (three writable channels per pixel)".
\<close>

definition capacity :: "image \<Rightarrow> nat" where
  "capacity img = 3 * pixel_count img"

text \<open>
  Modelled from the spec: the error kinds of section 7 that the missing embed and decode
  operations can signal. \<open>OutOfBounds\<close> is not an error of the spec: it marks a read
  outside the pixel buffer, which the decoder is required never to attempt.
\<close>

datatype codec_error = CapacityExceeded | OutOfBounds

subsection \<open>The encoded bitstream\<close>

text \<open>
  Modelled from the spec: the bits of one payload byte in the missing encoder's stream,
  "most-significant-bit first per byte". The payload is its UTF-8 byte string, a
  \<^typ>\<open>string\<close>, whose characters are bytes.
\<close>

definition char_bits :: "char \<Rightarrow> bool list" where
  "char_bits c =
     [digit7 c, digit6 c, digit5 c, digit4 c, digit3 c, digit2 c, digit1 c, digit0 c]"

text \<open>
  Modelled from the spec: the length prefix of the missing encoder, the "payload length as
  a fixed-width prefix (e.g., 32 bits)", most significant bit first. It holds the low 32
  bits of the length.
\<close>

definition length_prefix :: "nat \<Rightarrow> bool list" where
  "length_prefix n = map (bit n) (rev [0..<32])"

text \<open>
  Modelled from the spec: the Encoded Bitstream of the missing encoder, the prefix
  "followed by the UTF-8 payload bytes", as bits.
\<close>

definition encode_bitstream :: "string \<Rightarrow> bool list" where
  "encode_bitstream payload = length_prefix (length payload) @ concat (map char_bits payload)"

text \<open>
  Modelled from the spec: the declared length that the missing decoder recovers from "the
  first 32 bits".
\<close>

definition prefix_value :: "bool list \<Rightarrow> nat" where
  "prefix_value bs = horner_sum of_bool 2 (rev bs)"

text \<open>
  Modelled from the spec: the bytes that the missing decoder rebuilds, "each byte = 8
  consecutive extracted bits", most significant bit first; bits that do not fill a byte
  are dropped.
\<close>

fun bits_chars :: "bool list \<Rightarrow> string" where
  "bits_chars (b7 # b6 # b5 # b4 # b3 # b2 # b1 # b0 # bs) =
     Char b0 b1 b2 b3 b4 b5 b6 b7 # bits_chars bs"
| "bits_chars _ = []"

subsection \<open>Bit slots of a pixel buffer\<close>

text \<open>
  Modelled from the spec: the write of the missing encoder to one channel, "overwrite the
  least-significant bit of one color channel with that bit's value".
\<close>

definition set_lsb :: "byte \<Rightarrow> bool \<Rightarrow> byte" where
  "set_lsb v b = (v AND 0xFE) OR (if b then 1 else 0)"

text \<open>Modelled from the spec: the bit that the missing decoder extracts from one channel.\<close>

definition lsb :: "byte \<Rightarrow> bool" where
  "lsb v = (v AND 1 = 1)"

text \<open>
  Modelled from the spec: the channel order of the missing codec, "cycle through red,
  green, blue channels", alpha skipped: channel 0 is red, 1 is green, 2 is blue.
\<close>

definition channel :: "nat \<Rightarrow> pixel \<Rightarrow> byte" where
  "channel c p = (if c = 0 then red p else if c = 1 then green p else blue p)"

text \<open>
  Modelled from the spec: the missing encoder's write of one bit into the channel of that
  number; the other channels and alpha are preserved.
\<close>

definition put_channel :: "nat \<Rightarrow> bool \<Rightarrow> pixel \<Rightarrow> pixel" where
  "put_channel c b p =
     (if c = 0 then p\<lparr>red := set_lsb (red p) b\<rparr>
      else if c = 1 then p\<lparr>green := set_lsb (green p) b\<rparr>
      else p\<lparr>blue := set_lsb (blue p) b\<rparr>)"

text \<open>
  Modelled from the spec: one step of the missing encoder's loop, "each bit mapped onto one
  color-channel least-significant-bit slot in raster order". Slot \<open>k\<close> is channel
  \<open>k mod 3\<close> of pixel \<open>k div 3\<close>. A slot outside the buffer is not written.
\<close>

definition put_slot :: "pixel list \<Rightarrow> nat \<Rightarrow> bool \<Rightarrow> pixel list" where
  "put_slot ps k b =
     (let i = k div 3 in
      if i < length ps then ps[i := put_channel (k mod 3) b (ps ! i)] else ps)"

text \<open>
  Modelled from the spec: the loop of the missing encoder, "for each bit, overwrite ...",
  writing the bits to the slots \<open>k\<close>, \<open>k + 1\<close>, ...
\<close>

fun write_bits :: "nat \<Rightarrow> bool list \<Rightarrow> pixel list \<Rightarrow> pixel list" where
  "write_bits k [] ps = ps"
| "write_bits k (b # bs) ps = write_bits (Suc k) bs (put_slot ps k b)"

text \<open>
  Modelled from the spec: one read of the missing decoder, "from the same channel-cycling,
  raster-scan order used by the encoder". A read outside the buffer gives \<open>None\<close>.
\<close>

definition read_slot :: "pixel list \<Rightarrow> nat \<Rightarrow> bool option" where
  "read_slot ps k =
     (let i = k div 3 in
      if i < length ps then Some (lsb (channel (k mod 3) (ps ! i))) else None)"

text \<open>
  Modelled from the spec: the missing decoder's read of \<open>n\<close> consecutive bits from slot
  \<open>k\<close> on; \<open>None\<close> as soon as one read is outside the buffer.
\<close>

fun read_bits :: "pixel list \<Rightarrow> nat \<Rightarrow> nat \<Rightarrow> bool list option" where
  "read_bits ps k 0 = Some []"
| "read_bits ps k (Suc n) =
     (case read_slot ps k of
        None \<Rightarrow> None
      | Some b \<Rightarrow> (case read_bits ps (Suc k) n of None \<Rightarrow> None | Some bs \<Rightarrow> Some (b # bs)))"

subsection \<open>embedInvisible and decodeInvisible\<close>

text \<open>
  Modelled from the spec: the missing encoder \<^verbatim>\<open>embedInvisible\<close> of section 4.1. "If
  (length-prefix bits + payload bits) exceeds 3 \<times> pixel count ... the operation fails with
  a Capacity Exceeded error"; otherwise the bits are written from slot 0 on into a copy
  of the buffer, "in the same pixel dimensions". The spec asks for a non-empty payload
  and names no error for an empty one; the model does not test for it.
\<close>

definition embedInvisible :: "image \<Rightarrow> string \<Rightarrow> codec_error + image" where
  "embedInvisible img payload =
     (let bits = encode_bitstream payload in
      if length bits > capacity img then Inl CapacityExceeded
      else Inr (img\<lparr>pixels := write_bits 0 bits (pixels img)\<rparr>))"

text \<open>
  Modelled from the spec: the Embedding Capacity of section 3 that the missing decoder
  compares the declared length with, "(pixel count \<times> bits usable per pixel) / 8, in
  bytes".
\<close>

definition capacity_bytes :: "image \<Rightarrow> nat" where
  "capacity_bytes img = capacity img div 8"

text \<open>
  Modelled from the spec: the missing decoder's "decode as UTF-8". A text is kept as its
  UTF-8 byte string, the form in which \<^verbatim>\<open>embedInvisible\<close> takes it, so decoding comes
  to checking that the bytes are well-formed UTF-8: a lead byte, then as many
  continuation bytes as it announces, the first of them within the bounds that exclude
  overlong forms, surrogates and code points above U+10FFFF. \<open>utf8_scan\<close> reads the
  bytes with the number of continuation bytes still due and the bounds of the next one.
\<close>

fun utf8_scan :: "nat \<Rightarrow> nat \<Rightarrow> nat \<Rightarrow> nat list \<Rightarrow> bool" where
  "utf8_scan due lo hi [] = (due = 0)"
| "utf8_scan 0 lo hi (b # bs) =
     (if b < 0x80 then utf8_scan 0 0x80 0xBF bs
      else if 0xC2 \<le> b \<and> b \<le> 0xDF then utf8_scan (Suc 0) 0x80 0xBF bs
      else if b = 0xE0 then utf8_scan (Suc (Suc 0)) 0xA0 0xBF bs
      else if b = 0xED then utf8_scan (Suc (Suc 0)) 0x80 0x9F bs
      else if 0xE1 \<le> b \<and> b \<le> 0xEF then utf8_scan (Suc (Suc 0)) 0x80 0xBF bs
      else if b = 0xF0 then utf8_scan (Suc (Suc (Suc 0))) 0x90 0xBF bs
      else if 0xF1 \<le> b \<and> b \<le> 0xF3 then utf8_scan (Suc (Suc (Suc 0))) 0x80 0xBF bs
      else if b = 0xF4 then utf8_scan (Suc (Suc (Suc 0))) 0x80 0x8F bs
      else False)"
| "utf8_scan (Suc due) lo hi (b # bs) = (lo \<le> b \<and> b \<le> hi \<and> utf8_scan due 0x80 0xBF bs)"

text \<open>
  Modelled from the spec: whether the bytes that the missing decoder recovered "decode as
  UTF-8".
\<close>

definition utf8_valid :: "string \<Rightarrow> bool" where
  "utf8_valid bytes = utf8_scan 0 0x80 0xBF (map of_char bytes)"

text \<open>
  Modelled from the spec: the missing decoder \<^verbatim>\<open>decodeInvisible\<close> of section 4.2, step
  by step as the section words it. It reads "the first 32 bits" to recover the declared
  length; "if the declared length is absurd (exceeds the image's theoretical capacity)"
  it returns the absent result \<open>Inr None\<close>; otherwise it reads "that many subsequent
  bytes" and decodes them as UTF-8, with the "not present / invalid" result \<open>Inr None\<close>
  for bytes that are not UTF-8. Every read is checked: a read outside the buffer makes
  the result \<open>Inl OutOfBounds\<close>.
\<close>

definition decodeInvisible :: "image \<Rightarrow> codec_error + string option" where
  "decodeInvisible img =
     (case read_bits (pixels img) 0 32 of
        None \<Rightarrow> Inl OutOfBounds
      | Some prefix_bits \<Rightarrow>
          let declared = prefix_value prefix_bits in
          if declared > capacity_bytes img then Inr None
          else
            case read_bits (pixels img) 32 (8 * declared) of
              None \<Rightarrow> Inl OutOfBounds
            | Some payload_bits \<Rightarrow>
                let bytes = bits_chars payload_bits in
                if utf8_valid bytes then Inr (Some bytes) else Inr None)"

section \<open>Sample inputs\<close>

text \<open>Concrete inputs on which the theorems below are instantiated.\<close>

definition failing_step :: "unit watermark_step" where
  "failing_step url stamp = Inl ()"

definition marking_step :: "unit watermark_step" where
  "marking_step url stamp = Inr (url @ ''#'' @ stamp)"

definition plain_text_parser :: json_parser where
  "plain_text_parser s = None"

definition refusal_response :: response where
  "refusal_response =
     \<lparr>candidates = Some
        [\<lparr>content_parts = Some [\<lparr>part_text = Some ''No.'', part_inlineData = None\<rparr>],
          finishReason = Some ''SAFETY'',
          safetyRatings = None\<rparr>]\<rparr>"

definition refusing_model :: "request \<Rightarrow> api_outcome" where
  "refusing_model req = Resolved refusal_response"

definition blocked_response :: response where
  "blocked_response =
     \<lparr>candidates = Some
        [\<lparr>content_parts = None,
          finishReason = Some ''SAFETY'',
          safetyRatings = Some
            [\<lparr>blocked = True, category = Some ''HARM_CATEGORY_HARASSMENT''\<rparr>,
             \<lparr>blocked = False, category = Some ''HARM_CATEGORY_HATE_SPEECH''\<rparr>,
             \<lparr>blocked = True, category = Some ''HARM_CATEGORY_DANGEROUS_CONTENT''\<rparr>]\<rparr>]\<rparr>"

definition blocking_model :: "request \<Rightarrow> api_outcome" where
  "blocking_model req = Resolved blocked_response"

definition image_response :: response where
  "image_response =
     \<lparr>candidates = Some
        [\<lparr>content_parts = Some
            [\<lparr>part_text = Some ''Here it is.'', part_inlineData = None\<rparr>,
             \<lparr>part_text = None,
               part_inlineData =
                 Some \<lparr>blob_mimeType = Some ''image/png'', blob_data = Some ''iVBOR''\<rparr>\<rparr>],
          finishReason = Some ''STOP'',
          safetyRatings = None\<rparr>]\<rparr>"

definition drawing_model :: "request \<Rightarrow> api_outcome" where
  "drawing_model req = Resolved image_response"

definition sample_calls :: "nat \<Rightarrow> request \<Rightarrow> api_outcome" where
  "sample_calls i = drawing_model"

definition failing_calls :: "nat \<Rightarrow> request \<Rightarrow> api_outcome" where
  "failing_calls i =
     (if i = 1 then blocking_model
      else if i = 3 then (\<lambda>req. Rejected (Error ''quota''))
      else drawing_model)"

definition sample_settled_at :: "nat \<Rightarrow> nat" where
  "sample_settled_at i = 10 - i"

definition sample_image :: image where
  "sample_image =
     \<lparr>width = 4, height = 4,
      pixels = map (\<lambda>v. \<lparr>red = v, green = 2 * v, blue = 255 - v, alpha = 200\<rparr>)
                 [0, 17, 34, 51, 68, 85, 102, 119, 136, 153, 170, 187, 204, 221, 238, 255]\<rparr>"


definition tiny_image :: image where
  "tiny_image =
     \<lparr>width = 2, height = 2,
      pixels = replicate 4 \<lparr>red = 10, green = 20, blue = 30, alpha = 255\<rparr>\<rparr>"

definition strip_image :: image where
  "strip_image =
     \<lparr>width = 13, height = 1,
      pixels = replicate 13 \<lparr>red = 1, green = 2, blue = 3, alpha = 4\<rparr>\<rparr>"




section \<open>Properties of handleFiles\<close>

lemma js_slice0_take: "0 \<le> e \<Longrightarrow> js_slice0 e xs = take (nat e) xs"
  by (simp add: js_slice0_def)

text \<open>
  Claim C10. When the current list holds at most \<open>maxImages\<close> URLs, a call of
  \<^verbatim>\<open>handleFiles\<close> that reaches \<^verbatim>\<open>onImagesChange\<close> hands it a list of at most
  \<open>maxImages\<close> URLs: the existing URLs, unchanged and in their order, followed by the
  data URLs of the first \<open>maxImages - length imageUrls\<close> offered files and of no other
  file.
\<close>

theorem handleFiles_within_limit:
  assumes room: "int (length imageUrls) \<le> maxImages"
      and called: "handleFiles maxImages imageUrls files = Some allUrls"
  shows "int (length allUrls) \<le> maxImages \<and>
         (\<exists>newUrls. allUrls = imageUrls @ newUrls \<and>
            length newUrls \<le> nat (maxImages - int (length imageUrls)) \<and>
            mset newUrls =
              mset (map (\<lambda>f. the (data_url f))
                     (take (nat (maxImages - int (length imageUrls))) files)))"
proof -
  define k where "k = nat (maxImages - int (length imageUrls))"
  have slice: "js_slice0 (maxImages - int (length imageUrls)) files = take k files"
    using room by (simp add: js_slice0_take k_def)
  define newUrls where
    "newUrls = map (\<lambda>f. the (data_url f)) (sort_key loaded_at (take k files))"
  from called have all: "allUrls = imageUrls @ newUrls"
    by (simp add: handleFiles_def slice newUrls_def Let_def split: if_splits)
  have len: "length newUrls \<le> k"
    by (simp add: newUrls_def)
  have ms: "mset newUrls = mset (map (\<lambda>f. the (data_url f)) (take k files))"
    unfolding newUrls_def by (simp only: mset_map mset_sort)
  have "int (length allUrls) \<le> maxImages"
    using all len room by (simp add: k_def)
  with all len ms show ?thesis
    unfolding k_def by blast
qed

theorem handleFiles_within_limit_witness:
  "int (length [''a'']) \<le> 2 \<and>
   handleFiles 2 [''a'']
     [\<lparr>data_url = Some ''x'', loaded_at = 5\<rparr>, \<lparr>data_url = Some ''y'', loaded_at = 1\<rparr>,
      \<lparr>data_url = Some ''z'', loaded_at = 3\<rparr>] = Some [''a'', ''x''] \<and>
   int (length [''a'', ''x'']) \<le> 2"
  using handleFiles_within_limit [of "[''a'']" 2
     "[\<lparr>data_url = Some ''x'', loaded_at = 5\<rparr>, \<lparr>data_url = Some ''y'', loaded_at = 1\<rparr>,
      \<lparr>data_url = Some ''z'', loaded_at = 3\<rparr>]" "[''a'', ''x'']"]
  by (simp add: handleFiles_def js_slice0_def)

text \<open>
  The bound on the current list matters: with more URLs than \<open>maxImages\<close> the negative
  end of the slice counts from the end of the offered files, and files are appended.
\<close>

lemma handleFiles_over_limit:
  "handleFiles 2 [''a'', ''b'', ''c'']
     [\<lparr>data_url = Some ''x'', loaded_at = 5\<rparr>, \<lparr>data_url = Some ''y'', loaded_at = 1\<rparr>,
      \<lparr>data_url = Some ''z'', loaded_at = 3\<rparr>] = Some [''a'', ''b'', ''c'', ''y'', ''x'']"
  by (simp add: handleFiles_def js_slice0_def)

section \<open>Properties of applyWatermarks\<close>

text \<open>
  Claim C1. \<^verbatim>\<open>applyWatermarks\<close> never lets an error out, and it returns \<^verbatim>\<open>null\<close>
  for \<^verbatim>\<open>null\<close>. For every URL, if a call of one of the two watermarking steps
  throws during the run, the run returns the original URL, unchanged. The steps are
  called for every URL but the empty string, on which the guard \<^verbatim>\<open>!imageUrl\<close>
  returns \<^verbatim>\<open>null\<close> before any step runs; for every other URL a call throws
  exactly when the embedding throws, or returns and the visible stamp throws.
\<close>

theorem applyWatermarks_fallback:
  "returned (applyWatermarks embedWatermark addVisibleWatermark None) = Inr None \<and>
   (\<exists>r. returned (applyWatermarks embedWatermark addVisibleWatermark url) = Inr r) \<and>
   (list_ex threw (step_calls (applyWatermarks embedWatermark addVisibleWatermark (Some original))) \<longrightarrow>
      returned (applyWatermarks embedWatermark addVisibleWatermark (Some original)) =
        Inr (Some original)) \<and>
   applyWatermarks embedWatermark addVisibleWatermark (Some []) =
     \<lparr>step_calls = [], returned = Inr None\<rparr> \<and>
   (original \<noteq> [] \<longrightarrow>
      list_ex threw (step_calls (applyWatermarks embedWatermark addVisibleWatermark (Some original))) =
        ((\<exists>err. embedWatermark original watermark_text = Inl err) \<or>
         (\<exists>w err. embedWatermark original watermark_text = Inr w \<and>
            addVisibleWatermark w watermark_text = Inl err)))"
proof -
  have null: "returned (applyWatermarks embedWatermark addVisibleWatermark None) = Inr None"
    by (simp add: applyWatermarks_def truthy_def)
  have caught: "\<exists>r. returned (applyWatermarks embedWatermark addVisibleWatermark url) = Inr r"
    by (simp add: applyWatermarks_def Let_def split: sum.splits)
  have fallback:
    "returned (applyWatermarks embedWatermark addVisibleWatermark (Some original)) =
       Inr (Some original)"
    if "list_ex threw (step_calls (applyWatermarks embedWatermark addVisibleWatermark (Some original)))"
    using that by (auto simp: applyWatermarks_def Let_def threw_def split: sum.splits if_splits)
  have empty: "applyWatermarks embedWatermark addVisibleWatermark (Some []) =
      \<lparr>step_calls = [], returned = Inr None\<rparr>"
    by (simp add: applyWatermarks_def truthy_def)
  have steps:
    "list_ex threw (step_calls (applyWatermarks embedWatermark addVisibleWatermark (Some original))) =
       ((\<exists>err. embedWatermark original watermark_text = Inl err) \<or>
        (\<exists>w err. embedWatermark original watermark_text = Inr w \<and>
           addVisibleWatermark w watermark_text = Inl err))"
    if "original \<noteq> []"
    using that by (auto simp: applyWatermarks_def Let_def threw_def truthy_def split: sum.splits)
  show ?thesis
    using null caught fallback empty steps by blast
qed

theorem applyWatermarks_fallback_witness:
  "applyWatermarks failing_step marking_step (Some ''data:image/png;base64,AAAA'') =
     \<lparr>step_calls = [(EmbedWatermark, Inl ())],
      returned = Inr (Some ''data:image/png;base64,AAAA'')\<rparr> \<and>
   list_ex threw (step_calls (applyWatermarks marking_step failing_step (Some ''data:x''))) \<and>
   returned (applyWatermarks marking_step failing_step (Some ''data:x'')) = Inr (Some ''data:x'')"
proof -
  have first: "applyWatermarks failing_step marking_step (Some ''data:image/png;base64,AAAA'') =
     \<lparr>step_calls = [(EmbedWatermark, Inl ())],
      returned = Inr (Some ''data:image/png;base64,AAAA'')\<rparr>"
    by (simp add: applyWatermarks_def truthy_def failing_step_def)
  have second: "list_ex threw (step_calls (applyWatermarks marking_step failing_step (Some ''data:x'')))"
    by (simp add: applyWatermarks_def truthy_def failing_step_def marking_step_def threw_def)
  note inst = applyWatermarks_fallback [of marking_step failing_step None "''data:x''"]
  have third: "returned (applyWatermarks marking_step failing_step (Some ''data:x'')) =
      Inr (Some ''data:x'')"
    by (rule inst [THEN conjunct2, THEN conjunct2, THEN conjunct1, THEN mp, OF second])
  show ?thesis
    by (intro conjI first second third)
qed

section \<open>Properties of editImage\<close>

lemma data_uri_truthy: "truthy (Some (data_uri d))"
  by (simp add: truthy_def data_uri_def)

lemma add_part_uri:
  assumes "imageUrl result = None \<or> (\<exists>d. imageUrl result = Some (data_uri d))"
  shows "imageUrl (add_part result part) = None \<or>
         (\<exists>d. imageUrl (add_part result part) = Some (data_uri d))"
  using assms by (auto simp: add_part_def split: option.splits)

lemma foldl_add_part_uri:
  assumes "imageUrl result = None \<or> (\<exists>d. imageUrl result = Some (data_uri d))"
  shows "imageUrl (foldl add_part result ps) = None \<or>
         (\<exists>d. imageUrl (foldl add_part result ps) = Some (data_uri d))"
  using assms
proof (induction ps arbitrary: result)
  case Nil
  then show ?case by simp
next
  case (Cons part ps)
  show ?case
    unfolding foldl_Cons by (rule Cons.IH) (rule add_part_uri [OF Cons.prems])
qed

lemma collect_parts_uri:
  "imageUrl (collect_parts r) = None \<or> (\<exists>d. imageUrl (collect_parts r) = Some (data_uri d))"
proof -
  have start: "imageUrl \<lparr>imageUrl = None, gc_text = None\<rparr> = None \<or>
      (\<exists>d. imageUrl \<lparr>imageUrl = None, gc_text = None\<rparr> = Some (data_uri d))"
    by simp
  show ?thesis
    using foldl_add_part_uri [OF start]
    by (simp add: collect_parts_def Let_def split: option.splits)
qed

lemma rethrow_is_Error: "\<exists>msg. rethrow parse e = Error msg"
  by (simp add: rethrow_def split: thrown.splits option.splits)

lemma JSON_parse_error_T: "JSON_parse_error parse (CHR ''T'' # s) = None"
  by (simp add: JSON_parse_error_def json_ws_def)

lemma no_image_message_T: "\<exists>s. no_image_message r result = CHR ''T'' # s"
  by (simp add: no_image_message_def safety_message_def safety_prefix_def Let_def)

text \<open>
  The messages that \<^verbatim>\<open>editImage\<close> makes for a response without an image open with a
  capital T, so \<^verbatim>\<open>JSON.parse\<close> throws on them and the \<^verbatim>\<open>catch\<close> block throws them
  on as they are.
\<close>

lemma rethrow_no_image:
  "rethrow parse (Error (no_image_message r result)) = Error (no_image_message r result)"
proof -
  obtain s where "no_image_message r result = CHR ''T'' # s"
    using no_image_message_T by blast
  then show ?thesis
    by (simp add: rethrow_def JSON_parse_error_T)
qed

lemma editImage_cases:
  "(\<exists>msg. editImage parse gen prompt imageParts maskBase64 = Inl (Error msg)) \<or>
   (\<exists>result d. editImage parse gen prompt imageParts maskBase64 = Inr result \<and>
      imageUrl result = Some (data_uri d))"
proof (cases "gen (edit_request prompt imageParts maskBase64)")
  case (Rejected e)
  then show ?thesis
    using rethrow_is_Error [of parse e] by (auto simp: editImage_def)
next
  case (Resolved r)
  show ?thesis
  proof (cases "imageUrl (collect_parts r)")
    case None
    then show ?thesis
      using Resolved rethrow_is_Error [of parse "Error (no_image_message r (collect_parts r))"]
      by (auto simp: editImage_def truthy_def)
  next
    case (Some u)
    then obtain d where "u = data_uri d"
      using collect_parts_uri [of r] by auto
    then show ?thesis
      using Resolved Some by (auto simp: editImage_def data_uri_truthy)
  qed
qed

lemma editImage_Inr_truthy:
  "editImage parse gen prompt imageParts maskBase64 = Inr result \<Longrightarrow> truthy (imageUrl result)"
  using editImage_cases [of parse gen prompt imageParts maskBase64]
  by (auto simp: data_uri_truthy)

lemma editImage_no_image:
  assumes "gen (edit_request prompt imageParts maskBase64) = Resolved r"
      and "imageUrl (collect_parts r) = None"
  shows "editImage parse gen prompt imageParts maskBase64 =
           Inl (Error (no_image_message r (collect_parts r)))"
  using assms by (simp add: editImage_def truthy_def rethrow_no_image)

lemma is_safety_message_safety: "is_safety_message (safety_message cats)"
  by (simp add: is_safety_message_def safety_message_def)

lemma editImage_drawing_model:
  "editImage plain_text_parser drawing_model ''draw'' [] None =
     Inr \<lparr>imageUrl = Some ''data:image/png;base64,iVBOR'', gc_text = Some ''Here it is.''\<rparr>"
  by (simp add: editImage_def drawing_model_def image_response_def collect_parts_def
      first_candidate_def add_part_def truthy_def data_uri_def js_string_def)

lemma collect_parts_blocked_response:
  "collect_parts blocked_response = \<lparr>imageUrl = None, gc_text = None\<rparr>"
  by (simp add: blocked_response_def collect_parts_def first_candidate_def)

lemma no_image_message_blocked_response:
  "no_image_message blocked_response \<lparr>imageUrl = None, gc_text = None\<rparr> =
     safety_message ''HARM_CATEGORY_HARASSMENT, HARM_CATEGORY_DANGEROUS_CONTENT''"
  by (simp add: blocked_response_def first_candidate_def truthy_def
      no_image_message_def candidate_finishReason_def blocked_categories_def)

text \<open>
  Claim C9, as stated, fails for a response that carries text, no image and the finish
  reason \<^verbatim>\<open>SAFETY\<close>: the error quotes the model's text and is not the safety message.
\<close>

theorem editImage_safety_counterexample:
  "candidate_finishReason refusal_response = Some ''SAFETY'' \<and>
   imageUrl (collect_parts refusal_response) = None \<and>
   editImage plain_text_parser refusing_model ''draw'' [] None =
     Inl (Error (''The model responded: '' @ [CHR 0x22] @ ''No.'' @ [CHR 0x22])) \<and>
   \<not> is_safety_message (''The model responded: '' @ [CHR 0x22] @ ''No.'' @ [CHR 0x22])"
  by (simp add: editImage_def refusing_model_def refusal_response_def collect_parts_def
      first_candidate_def candidate_finishReason_def add_part_def truthy_def
      no_image_message_def rethrow_def JSON_parse_error_def json_ws_def
      plain_text_parser_def is_safety_message_def safety_prefix_def)

text \<open>
  Claim C9, amended. For every prompt, list of image parts and mask, \<^verbatim>\<open>editImage\<close>
  either throws an \<^verbatim>\<open>Error\<close> or resolves with a content whose \<^verbatim>\<open>imageUrl\<close> is a data
  URI, never \<^verbatim>\<open>null\<close>. When the model's response holds no image it throws: with a
  message that quotes the model's text when the response holds text, and with the
  safety message when the response holds no text and the finish reason is
  \<^verbatim>\<open>SAFETY\<close>.
\<close>

theorem editImage_throws_or_data_uri:
  "((\<exists>msg. editImage parse gen prompt imageParts maskBase64 = Inl (Error msg)) \<or>
    (\<exists>result mime payload.
        editImage parse gen prompt imageParts maskBase64 = Inr result \<and>
        imageUrl result = Some (''data:'' @ mime @ '';base64,'' @ payload))) \<and>
   (\<forall>r. gen (edit_request prompt imageParts maskBase64) = Resolved r \<and>
        imageUrl (collect_parts r) = None \<longrightarrow>
        editImage parse gen prompt imageParts maskBase64 =
          Inl (Error (no_image_message r (collect_parts r))) \<and>
        (truthy (gc_text (collect_parts r)) \<longrightarrow>
           no_image_message r (collect_parts r) =
             ''The model responded: '' @ [CHR 0x22] @ the (gc_text (collect_parts r))
               @ [CHR 0x22]) \<and>
        (\<not> truthy (gc_text (collect_parts r)) \<and> candidate_finishReason r = Some ''SAFETY'' \<longrightarrow>
           is_safety_message (no_image_message r (collect_parts r))))"
proof -
  have first: "(\<exists>msg. editImage parse gen prompt imageParts maskBase64 = Inl (Error msg)) \<or>
    (\<exists>result mime payload.
        editImage parse gen prompt imageParts maskBase64 = Inr result \<and>
        imageUrl result = Some (''data:'' @ mime @ '';base64,'' @ payload))"
    using editImage_cases [of parse gen prompt imageParts maskBase64]
    unfolding data_uri_def by blast
  have safety: "is_safety_message (no_image_message r (collect_parts r))"
    if "\<not> truthy (gc_text (collect_parts r))" "candidate_finishReason r = Some ''SAFETY''" for r
    using that by (simp add: no_image_message_def Let_def is_safety_message_safety)
  have quoted: "no_image_message r (collect_parts r) =
      ''The model responded: '' @ [CHR 0x22] @ the (gc_text (collect_parts r)) @ [CHR 0x22]"
    if "truthy (gc_text (collect_parts r))" for r
    using that by (simp add: no_image_message_def)
  show ?thesis
    using first safety quoted editImage_no_image [of gen prompt imageParts maskBase64 _ parse]
    by blast
qed

theorem editImage_throws_or_data_uri_witness:
  "editImage plain_text_parser refusing_model ''draw'' [] None =
     Inl (Error (''The model responded: '' @ [CHR 0x22] @ ''No.'' @ [CHR 0x22])) \<and>
   editImage plain_text_parser blocking_model ''draw'' [] None =
     Inl (Error (safety_message ''HARM_CATEGORY_HARASSMENT, HARM_CATEGORY_DANGEROUS_CONTENT'')) \<and>
   is_safety_message (safety_message ''HARM_CATEGORY_HARASSMENT, HARM_CATEGORY_DANGEROUS_CONTENT'') \<and>
   editImage plain_text_parser drawing_model ''draw'' [] None =
     Inr \<lparr>imageUrl = Some ''data:image/png;base64,iVBOR'', gc_text = Some ''Here it is.''\<rparr>"
proof -
  have refused: "refusing_model (edit_request ''draw'' [] None) = Resolved refusal_response"
    by (simp add: refusing_model_def)
  have refused_parts: "collect_parts refusal_response = \<lparr>imageUrl = None, gc_text = Some ''No.''\<rparr>"
    by (simp add: refusal_response_def collect_parts_def first_candidate_def add_part_def
        truthy_def)
  have blocked: "blocking_model (edit_request ''draw'' [] None) = Resolved blocked_response"
    by (simp add: blocking_model_def)
  have finish: "candidate_finishReason blocked_response = Some ''SAFETY''"
    by (simp add: candidate_finishReason_def blocked_response_def first_candidate_def)
  show ?thesis
    using editImage_throws_or_data_uri [of plain_text_parser refusing_model "''draw''" "[]" None]
      editImage_throws_or_data_uri [of plain_text_parser blocking_model "''draw''" "[]" None]
      refused refused_parts blocked finish
    by (simp add: collect_parts_blocked_response no_image_message_blocked_response
        editImage_drawing_model truthy_def)
qed

section \<open>Properties of generateImageEditsBatch\<close>

lemma sort_key_Nil_iff: "sort_key f xs = [] \<longleftrightarrow> xs = []"
  by (metis length_sort length_0_conv)

lemma promise_all_Inr_iff:
  "promise_all ps = Inr rs \<longleftrightarrow>
     (\<forall>p \<in> set ps. \<not> isl (snd p)) \<and> rs = map (\<lambda>p. projr (snd p)) ps"
  by (auto simp: promise_all_def sort_key_Nil_iff filter_empty_conv split: list.splits)

lemma promise_all_Inl:
  assumes "promise_all ps = Inl e"
  shows "\<exists>p \<in> set ps. snd p = Inl e"
proof -
  from assms obtain p rest where srt: "sort_key fst (filter (\<lambda>p. isl (snd p)) ps) = p # rest"
    and e: "e = projl (snd p)"
    by (auto simp: promise_all_def split: list.splits)
  have "p \<in> set (sort_key fst (filter (\<lambda>p. isl (snd p)) ps))"
    by (simp add: srt)
  then have "p \<in> set ps" and "isl (snd p)"
    by simp_all
  then show ?thesis
    using e by (auto simp: isl_def)
qed

lemma length_batch_children: "length (batch_children parse calls prompt imageParts) = 4"
  by (simp add: batch_children_def)

lemma batch_children_truthy:
  assumes "c \<in> set (batch_children parse calls prompt imageParts)" and "\<not> isl c"
  shows "truthy (imageUrl (projr c))"
proof -
  from assms(1) obtain i where "c = editImage parse (calls i) prompt imageParts None"
    by (auto simp: batch_children_def)
  with assms(2) show ?thesis
    by (cases c) (simp_all add: editImage_Inr_truthy)
qed

lemma length_batch_imageUrls:
  "(\<forall>r \<in> set results. truthy (imageUrl r)) \<Longrightarrow>
   length (batch_imageUrls results) = length results"
  by (simp add: batch_imageUrls_def filter_id_conv)

lemma batch_by_children:
  "length (batch_children parse calls prompt imageParts) = 4 \<and>
   ((\<exists>urls. generateImageEditsBatch parse calls settled_at prompt imageParts = Inr urls) \<longleftrightarrow>
      (\<forall>c \<in> set (batch_children parse calls prompt imageParts). \<not> isl c)) \<and>
   (\<forall>urls. generateImageEditsBatch parse calls settled_at prompt imageParts = Inr urls \<longrightarrow>
      length urls = 4 \<and>
      urls = map (\<lambda>c. the (imageUrl (projr c))) (batch_children parse calls prompt imageParts)) \<and>
   ((\<forall>c \<in> set (batch_children parse calls prompt imageParts). \<not> isl c) \<longrightarrow>
      length (batch_imageUrls (map projr (batch_children parse calls prompt imageParts))) = 4) \<and>
   (\<forall>e. generateImageEditsBatch parse calls settled_at prompt imageParts = Inl e \<longrightarrow>
      Inl e \<in> set (batch_children parse calls prompt imageParts))"
proof -
  define children where "children = batch_children parse calls prompt imageParts"
  define promises where "promises = zip (map settled_at [0..<4]) children"
  have len: "length children = 4"
    by (simp add: children_def length_batch_children)
  have snd_promises: "map snd promises = children"
    by (simp add: promises_def len)
  then have set_promises: "snd ` set promises = set children"
    by (metis set_map)
  have mem_iff: "c \<in> set children \<longleftrightarrow> (\<exists>p \<in> set promises. snd p = c)" for c
    unfolding set_promises [symmetric] by (auto simp: image_iff)
  have urls4: "length (batch_imageUrls (map projr children)) = 4"
    and urls_eq: "batch_imageUrls (map projr children) = map (\<lambda>c. the (imageUrl (projr c))) children"
    if ok: "\<forall>c \<in> set children. \<not> isl c"
  proof -
    have t: "\<forall>r \<in> set (map projr children). truthy (imageUrl r)"
      using ok batch_children_truthy [of _ parse calls prompt imageParts]
      by (auto simp: children_def)
    then show "length (batch_imageUrls (map projr children)) = 4"
      by (simp add: length_batch_imageUrls len)
    from t have "filter truthy (map imageUrl (map projr children)) = map imageUrl (map projr children)"
      by (simp add: filter_id_conv)
    then show "batch_imageUrls (map projr children) = map (\<lambda>c. the (imageUrl (projr c))) children"
      by (simp add: batch_imageUrls_def comp_def)
  qed
  have resolved: "promise_all promises = Inr (map projr children)"
    if ok: "\<forall>c \<in> set children. \<not> isl c"
  proof -
    have "\<forall>p \<in> set promises. \<not> isl (snd p)"
      using ok mem_iff by blast
    moreover have "map (\<lambda>p. projr (snd p)) promises = map projr (map snd promises)"
      by (simp add: comp_def)
    ultimately show ?thesis
      by (simp add: promise_all_Inr_iff snd_promises)
  qed
  have gen_ok: "generateImageEditsBatch parse calls settled_at prompt imageParts =
                  Inr (map (\<lambda>c. the (imageUrl (projr c))) children)"
    if ok: "\<forall>c \<in> set children. \<not> isl c"
  proof -
    have "children \<noteq> []"
      using len by auto
    then show ?thesis
      using resolved [OF ok] urls_eq [OF ok]
      by (simp add: generateImageEditsBatch_def children_def [symmetric] promises_def [symmetric] Let_def)
  qed
  have gen_bad: "\<exists>e. generateImageEditsBatch parse calls settled_at prompt imageParts = Inl e \<and>
                   Inl e \<in> set children"
    if bad: "\<not> (\<forall>c \<in> set children. \<not> isl c)"
  proof -
    from bad obtain c where "c \<in> set children" "isl c"
      by blast
    then obtain p where "p \<in> set promises" "snd p = c"
      using mem_iff by blast
    with \<open>isl c\<close> have "\<not> (\<forall>p \<in> set promises. \<not> isl (snd p))"
      by blast
    then obtain e where pe: "promise_all promises = Inl e"
      using promise_all_Inr_iff [of promises] by (cases "promise_all promises") auto
    from promise_all_Inl [OF pe] have mem: "Inl e \<in> set children"
      unfolding mem_iff .
    then obtain i where i: "editImage parse (calls i) prompt imageParts None = Inl e"
      unfolding children_def batch_children_def by auto
    obtain msg where "e = Error msg"
      using editImage_cases [of parse "calls i" prompt imageParts None] unfolding i by auto
    then have "batch_rethrow e = e"
      by (simp add: batch_rethrow_def)
    with pe mem show ?thesis
      by (simp add: generateImageEditsBatch_def children_def [symmetric] promises_def [symmetric])
  qed
  have iff: "(\<exists>urls. generateImageEditsBatch parse calls settled_at prompt imageParts = Inr urls) \<longleftrightarrow>
      (\<forall>c \<in> set children. \<not> isl c)"
  proof
    assume "\<exists>urls. generateImageEditsBatch parse calls settled_at prompt imageParts = Inr urls"
    then show "\<forall>c \<in> set children. \<not> isl c"
      using gen_bad by force
  next
    assume "\<forall>c \<in> set children. \<not> isl c"
    then show "\<exists>urls. generateImageEditsBatch parse calls settled_at prompt imageParts = Inr urls"
      using gen_ok by blast
  qed
  have four: "length urls = 4 \<and> urls = map (\<lambda>c. the (imageUrl (projr c))) children"
    if "generateImageEditsBatch parse calls settled_at prompt imageParts = Inr urls" for urls
  proof -
    have "\<forall>c \<in> set children. \<not> isl c"
      using that iff by blast
    then have "urls = map (\<lambda>c. the (imageUrl (projr c))) children"
      using gen_ok that by simp
    then show ?thesis
      by (simp add: len)
  qed
  have child: "Inl e \<in> set children"
    if "generateImageEditsBatch parse calls settled_at prompt imageParts = Inl e" for e
  proof -
    have "\<not> (\<forall>c \<in> set children. \<not> isl c)"
      using that iff by force
    then show ?thesis
      using gen_bad that by force
  qed
  show ?thesis
    unfolding children_def [symmetric]
    using len iff four urls4 child by blast
qed

lemma batch_children_calls:
  "batch_children parse calls prompt imageParts =
     map (\<lambda>i. editImage parse (calls i) prompt imageParts None) [0..<4]"
  by (simp add: batch_children_def)

lemma all_children_iff:
  "(\<forall>c \<in> set (batch_children parse calls prompt imageParts). P c) \<longleftrightarrow>
   (\<forall>i<4. P (editImage parse (calls i) prompt imageParts None))"
  unfolding batch_children_calls by auto

text \<open>
  Claim C8. \<^verbatim>\<open>generateImageEditsBatch\<close> makes exactly four \<^verbatim>\<open>editImage\<close> calls, the
  \<open>i\<close>-th with the remote model's \<open>i\<close>-th answer, each with the same prompt and image
  parts and no mask. It resolves exactly when none of the four calls rejects, and
  rejects exactly when at least one does, with the error of one of the four calls. When
  it resolves, the result holds exactly four image URLs, the URL of each call in the
  order of the calls. Whenever all four calls resolve, the filtered list of URLs has
  length four, so the test for an empty list (the branch that throws "Failed to
  generate any image variations") never succeeds.
\<close>

theorem generateImageEditsBatch_four:
  "batch_children parse calls prompt imageParts =
     [editImage parse (calls 0) prompt imageParts None,
      editImage parse (calls 1) prompt imageParts None,
      editImage parse (calls 2) prompt imageParts None,
      editImage parse (calls 3) prompt imageParts None] \<and>
   ((\<exists>urls. generateImageEditsBatch parse calls settled_at prompt imageParts = Inr urls) \<longleftrightarrow>
      (\<forall>i<4. \<not> isl (editImage parse (calls i) prompt imageParts None))) \<and>
   ((\<exists>e. generateImageEditsBatch parse calls settled_at prompt imageParts = Inl e) \<longleftrightarrow>
      (\<exists>i<4. isl (editImage parse (calls i) prompt imageParts None))) \<and>
   (\<forall>urls. generateImageEditsBatch parse calls settled_at prompt imageParts = Inr urls \<longrightarrow>
      length urls = 4 \<and>
      urls = map (\<lambda>i. the (imageUrl (projr (editImage parse (calls i) prompt imageParts None))))
               [0..<4]) \<and>
   ((\<forall>i<4. \<not> isl (editImage parse (calls i) prompt imageParts None)) \<longrightarrow>
      length (batch_imageUrls
                (map (\<lambda>i. projr (editImage parse (calls i) prompt imageParts None)) [0..<4])) = 4) \<and>
   (\<forall>e. generateImageEditsBatch parse calls settled_at prompt imageParts = Inl e \<longrightarrow>
      (\<exists>i<4. editImage parse (calls i) prompt imageParts None = Inl e))"
proof -
  let ?batch = "generateImageEditsBatch parse calls settled_at prompt imageParts"
  let ?child = "\<lambda>i. editImage parse (calls i) prompt imageParts None"
  note by_children = batch_by_children [of parse calls prompt imageParts settled_at]
  have fan_out: "batch_children parse calls prompt imageParts =
      [?child 0, ?child 1, ?child 2, ?child 3]"
    by (simp add: batch_children_def upt_rec numeral_eq_Suc)
  have resolves: "(\<exists>urls. ?batch = Inr urls) \<longleftrightarrow> (\<forall>i<4. \<not> isl (?child i))"
    using by_children [THEN conjunct2, THEN conjunct1]
    unfolding all_children_iff .
  have rejects: "(\<exists>e. ?batch = Inl e) \<longleftrightarrow> (\<exists>i<4. isl (?child i))"
  proof -
    have "(\<exists>e. ?batch = Inl e) \<longleftrightarrow> \<not> (\<exists>urls. ?batch = Inr urls)"
      by (cases ?batch) simp_all
    then show ?thesis
      unfolding resolves by blast
  qed
  have four: "length urls = 4 \<and>
      urls = map (\<lambda>i. the (imageUrl (projr (?child i)))) [0..<4]"
    if "?batch = Inr urls" for urls
    using by_children [THEN conjunct2, THEN conjunct2, THEN conjunct1, rule_format, OF that]
    by (simp add: batch_children_calls comp_def)
  have never_empty: "length (batch_imageUrls (map (\<lambda>i. projr (?child i)) [0..<4])) = 4"
    if "\<forall>i<4. \<not> isl (?child i)"
  proof -
    have "\<forall>c \<in> set (batch_children parse calls prompt imageParts). \<not> isl c"
      using that unfolding all_children_iff .
    then show ?thesis
      using by_children [THEN conjunct2, THEN conjunct2, THEN conjunct2, THEN conjunct1]
      by (simp add: batch_children_calls comp_def)
  qed
  have of_child: "\<exists>i<4. ?child i = Inl e" if "?batch = Inl e" for e
  proof -
    have "Inl e \<in> set (batch_children parse calls prompt imageParts)"
      using by_children [THEN conjunct2, THEN conjunct2, THEN conjunct2, THEN conjunct2,
          rule_format, OF that] .
    then show ?thesis
      unfolding batch_children_calls by auto
  qed
  have four': "\<forall>urls. ?batch = Inr urls \<longrightarrow>
      length urls = 4 \<and> urls = map (\<lambda>i. the (imageUrl (projr (?child i)))) [0..<4]"
    using four by blast
  have never_empty': "(\<forall>i<4. \<not> isl (?child i)) \<longrightarrow>
      length (batch_imageUrls (map (\<lambda>i. projr (?child i)) [0..<4])) = 4"
    using never_empty by blast
  have of_child': "\<forall>e. ?batch = Inl e \<longrightarrow> (\<exists>i<4. ?child i = Inl e)"
    using of_child by blast
  show ?thesis
    by (rule conjI [OF fan_out conjI [OF resolves conjI [OF rejects
          conjI [OF four' conjI [OF never_empty' of_child']]]]])
qed

theorem generateImageEditsBatch_four_witness:
  "generateImageEditsBatch plain_text_parser sample_calls sample_settled_at ''draw'' [] =
     Inr [''data:image/png;base64,iVBOR'', ''data:image/png;base64,iVBOR'',
          ''data:image/png;base64,iVBOR'', ''data:image/png;base64,iVBOR''] \<and>
   generateImageEditsBatch plain_text_parser failing_calls sample_settled_at ''draw'' [] =
     Inl (Error ''quota'') \<and>
   isl (editImage plain_text_parser (failing_calls 3) ''draw'' [] None)"
proof -
  have drawn: "editImage plain_text_parser (sample_calls i) ''draw'' [] None =
      Inr \<lparr>imageUrl = Some ''data:image/png;base64,iVBOR'', gc_text = Some ''Here it is.''\<rparr>"
    for i
    by (simp add: sample_calls_def editImage_drawing_model)
  note sample = generateImageEditsBatch_four
      [of plain_text_parser sample_calls "''draw''" "[]" sample_settled_at]
  have "\<forall>i<4. \<not> isl (editImage plain_text_parser (sample_calls i) ''draw'' [] None)"
    by (simp add: drawn)
  with sample [THEN conjunct2, THEN conjunct1]
  obtain urls where urls: "generateImageEditsBatch plain_text_parser sample_calls
      sample_settled_at ''draw'' [] = Inr urls"
    by blast
  from sample [THEN conjunct2, THEN conjunct2, THEN conjunct2, THEN conjunct1, rule_format,
      OF urls]
  have "urls = [''data:image/png;base64,iVBOR'', ''data:image/png;base64,iVBOR'',
          ''data:image/png;base64,iVBOR'', ''data:image/png;base64,iVBOR'']"
    by (simp add: drawn upt_rec numeral_eq_Suc)
  with urls have resolved: "generateImageEditsBatch plain_text_parser sample_calls
      sample_settled_at ''draw'' [] =
     Inr [''data:image/png;base64,iVBOR'', ''data:image/png;base64,iVBOR'',
          ''data:image/png;base64,iVBOR'', ''data:image/png;base64,iVBOR'']"
    by simp
  have quota: "editImage plain_text_parser (\<lambda>req. Rejected (Error ''quota'')) ''draw'' [] None =
      Inl (Error ''quota'')"
    by (simp add: editImage_def rethrow_def JSON_parse_error_def json_ws_def)
  have blocked: "editImage plain_text_parser blocking_model ''draw'' [] None =
      Inl (Error (safety_message ''HARM_CATEGORY_HARASSMENT, HARM_CATEGORY_DANGEROUS_CONTENT''))"
    using editImage_no_image [of blocking_model "''draw''" "[]" None blocked_response
        plain_text_parser]
    by (simp add: blocking_model_def collect_parts_blocked_response
        no_image_message_blocked_response)
  have failing: "generateImageEditsBatch plain_text_parser failing_calls sample_settled_at
      ''draw'' [] = Inl (Error ''quota'')"
    by (simp add: generateImageEditsBatch_def batch_children_def failing_calls_def
        sample_settled_at_def editImage_drawing_model quota blocked promise_all_def
        batch_rethrow_def upt_rec numeral_eq_Suc)
  have third: "isl (editImage plain_text_parser (failing_calls 3) ''draw'' [] None)"
    by (simp add: failing_calls_def quota)
  show ?thesis
    by (intro conjI resolved failing third)
qed

section \<open>Properties of the watermark codec\<close>

subsection \<open>Least significant bits\<close>

lemma bit_254: "bit (0xFE :: byte) n \<longleftrightarrow> 0 < n \<and> n < 8"
proof -
  have "(0xFE :: byte) = NOT 1"
    by simp
  then show ?thesis
    by (simp only: bit_not_iff bit_1_iff) (auto simp: bit_simps)
qed

lemma bit_set_lsb: "bit (set_lsb v b) n = (if n = 0 then b else bit v n)"
proof (cases "n = 0")
  case True
  then show ?thesis
    by (simp add: set_lsb_def bit_or_iff bit_and_iff bit_254 bit_1_iff)
next
  case False
  have "bit v n \<Longrightarrow> n < 8"
    using bit_imp_le_length [of v n] by simp
  with False show ?thesis
    unfolding set_lsb_def bit_or_iff bit_and_iff bit_254
    by (auto simp: bit_1_iff)
qed

lemma lsb_bit0: "lsb v = bit v 0"
  by (simp add: lsb_def and_one_eq bit_0 odd_iff_mod_2_eq_one)

lemma lsb_set_lsb: "lsb (set_lsb v b) = b"
  by (simp add: lsb_bit0 bit_set_lsb)

lemma drop_bit_set_lsb: "drop_bit 1 (set_lsb v b) = drop_bit 1 v"
  by (rule bit_eqI) (simp add: bit_drop_bit_eq bit_set_lsb)

subsection \<open>Channels and slots\<close>

lemma channel_put_channel:
  "c < 3 \<Longrightarrow> c' < 3 \<Longrightarrow>
   channel c (put_channel c' b p) = (if c = c' then set_lsb (channel c p) b else channel c p)"
  by (auto simp: channel_def put_channel_def)

lemma alpha_put_channel: "alpha (put_channel c b p) = alpha p"
  by (simp add: put_channel_def)

lemma length_put_slot: "length (put_slot ps k b) = length ps"
  by (simp add: put_slot_def Let_def)

lemma slot_eq_iff: "(j::nat) = k \<longleftrightarrow> j div 3 = k div 3 \<and> j mod 3 = k mod 3"
  by (metis div_mult_mod_eq)

lemma read_slot_put_slot:
  assumes "k div 3 < length ps"
  shows "read_slot (put_slot ps k b) j = (if j = k then Some b else read_slot ps j)"
proof (cases "j div 3 = k div 3")
  case True
  have c: "j mod 3 < 3" "k mod 3 < 3"
    by simp_all
  show ?thesis
    using assms True channel_put_channel [OF c, of b "ps ! (k div 3)"]
    by (simp add: read_slot_def put_slot_def Let_def lsb_set_lsb slot_eq_iff [of j k])
next
  case False
  then have "j \<noteq> k"
    by auto
  with False assms show ?thesis
    by (simp add: read_slot_def put_slot_def Let_def)
qed

lemma length_write_bits: "length (write_bits k bs ps) = length ps"
  by (induction bs arbitrary: k ps) (simp_all add: length_put_slot)

lemma read_slot_write_bits:
  assumes "k + length bs \<le> 3 * length ps"
  shows "read_slot (write_bits k bs ps) j =
           (if k \<le> j \<and> j < k + length bs then Some (bs ! (j - k)) else read_slot ps j)"
  using assms
proof (induction bs arbitrary: k ps)
  case Nil
  then show ?case by auto
next
  case (Cons b bs)
  have inside: "k div 3 < length ps"
    using Cons.prems by simp
  have "Suc k + length bs \<le> 3 * length (put_slot ps k b)"
    using Cons.prems by (simp add: length_put_slot)
  from Cons.IH [OF this] show ?case
    by (auto simp: read_slot_put_slot [OF inside] nth_Cons' Suc_diff_le)
qed

lemma read_bits_Some:
  assumes "\<And>j. k \<le> j \<Longrightarrow> j < k + n \<Longrightarrow> read_slot ps j = Some (f j)"
  shows "read_bits ps k n = Some (map f [k..<k + n])"
  using assms
proof (induction n arbitrary: k)
  case 0
  then show ?case by simp
next
  case (Suc n)
  have "read_bits ps (Suc k) n = Some (map f [Suc k..<Suc k + n])"
    by (rule Suc.IH) (simp add: Suc.prems)
  moreover have "read_slot ps k = Some (f k)"
    by (simp add: Suc.prems)
  ultimately show ?case
    by (simp add: upt_rec [of k])
qed



lemma map_nth_upt: "k + n \<le> length xs \<Longrightarrow> map ((!) xs) [k..<k + n] = take n (drop k xs)"
  by (simp add: list_eq_iff_nth_eq)

lemma read_bits_write_bits:
  assumes "length bits \<le> 3 * length ps" and "k + n \<le> length bits"
  shows "read_bits (write_bits 0 bits ps) k n = Some (take n (drop k bits))"
proof -
  have "read_bits (write_bits 0 bits ps) k n = Some (map ((!) bits) [k..<k + n])"
  proof (rule read_bits_Some)
    fix j
    assume "k \<le> j" "j < k + n"
    then have "j < length bits"
      using assms(2) by simp
    then show "read_slot (write_bits 0 bits ps) j = Some (bits ! j)"
      using assms(1) by (simp add: read_slot_write_bits)
  qed
  then show ?thesis
    by (simp add: map_nth_upt assms(2))
qed

subsection \<open>Bit streams\<close>

lemma length_char_bits: "length (char_bits c) = 8"
  by (simp add: char_bits_def)

lemma length_length_prefix: "length (length_prefix n) = 32"
  by (simp add: length_prefix_def)

lemma length_concat_char_bits: "length (concat (map char_bits p)) = 8 * length p"
  by (induction p) (simp_all add: length_char_bits)

lemma length_encode_bitstream: "length (encode_bitstream p) = 32 + 8 * length p"
  by (simp add: encode_bitstream_def length_length_prefix length_concat_char_bits)

lemma prefix_value_length_prefix: "prefix_value (length_prefix n) = n mod 2 ^ 32"
  by (simp add: prefix_value_def length_prefix_def rev_map horner_sum_bit_eq_take_bit take_bit_eq_mod)

lemma bits_chars_char_bits: "bits_chars (char_bits c @ bs) = c # bits_chars bs"
  by (simp add: char_bits_def)

lemma bits_chars_concat: "bits_chars (concat (map char_bits p)) = p"
  by (induction p) (simp_all add: bits_chars_char_bits)

lemma take_concat_char_bits:
  "take (8 * m) (concat (map char_bits p)) = concat (map char_bits (take m p))"
proof (induction p arbitrary: m)
  case Nil
  then show ?case by simp
next
  case (Cons c p)
  show ?case
  proof (cases m)
    case 0
    then show ?thesis by simp
  next
    case (Suc m')
    have "8 * Suc m' - 8 = 8 * m'"
      by simp
    with Cons.IH [of m'] Suc show ?thesis
      by (simp add: length_char_bits)
  qed
qed

subsection \<open>What a write leaves unchanged\<close>

lemma drop_bit_Suc_0_set_lsb: "drop_bit (Suc 0) (set_lsb v b) = drop_bit (Suc 0) v"
  using drop_bit_set_lsb [of v b] by simp

lemma drop_bit_put_channel:
  "drop_bit (Suc 0) (channel c (put_channel c' b p)) = drop_bit (Suc 0) (channel c p)"
  by (simp add: channel_def put_channel_def drop_bit_Suc_0_set_lsb)

lemma put_slot_nth:
  assumes "i < length ps"
  shows "alpha (put_slot ps k b ! i) = alpha (ps ! i) \<and>
         (\<forall>c<3. drop_bit 1 (channel c (put_slot ps k b ! i)) = drop_bit 1 (channel c (ps ! i)))"
  using assms
  by (simp add: put_slot_def Let_def nth_list_update alpha_put_channel drop_bit_put_channel)

lemma write_bits_nth:
  assumes "i < length ps"
  shows "alpha (write_bits k bs ps ! i) = alpha (ps ! i) \<and>
         (\<forall>c<3. drop_bit 1 (channel c (write_bits k bs ps ! i)) = drop_bit 1 (channel c (ps ! i)))"
  using assms
proof (induction bs arbitrary: k ps)
  case Nil
  then show ?case by simp
next
  case (Cons b bs)
  have "i < length (put_slot ps k b)"
    using Cons.prems by (simp add: length_put_slot)
  from Cons.IH [OF this, of "Suc k"] put_slot_nth [OF Cons.prems, of k b]
  show ?case
    by simp
qed

lemma close_bytes:
  fixes a b :: byte
  assumes "drop_bit 1 a = drop_bit 1 b"
  shows "\<bar>int (unat a) - int (unat b)\<bar> \<le> 1"
proof -
  have "unat (drop_bit 1 a) = unat (drop_bit 1 b)"
    using assms by simp
  then have "unat a div 2 = unat b div 2"
    by (simp add: unat_drop_bit_eq drop_bit_eq_div unat_div)
  then show ?thesis
    by linarith
qed


subsection \<open>Round trip\<close>

lemma capacity_embedded [simp]: "capacity (img\<lparr>pixels := ps\<rparr>) = capacity img"
  by (simp add: capacity_def pixel_count_def)

lemma embedInvisible_fits:
  assumes "32 + 8 * length p \<le> capacity img"
  shows "embedInvisible img p = Inr (img\<lparr>pixels := write_bits 0 (encode_bitstream p) (pixels img)\<rparr>)"
  using assms by (simp add: embedInvisible_def Let_def length_encode_bitstream)

lemma embedInvisible_exceeds:
  assumes "32 + 8 * length p > capacity img"
  shows "embedInvisible img p = Inl CapacityExceeded"
  using assms by (simp add: embedInvisible_def Let_def length_encode_bitstream)

lemma capacity_bytes_less_iff: "capacity_bytes img < n \<longleftrightarrow> capacity img < 8 * n"
  unfolding capacity_bytes_def by (simp add: div_less_iff_less_mult mult.commute)

lemma decode_embedded:
  assumes wf: "well_formed img" and fits: "32 + 8 * length p \<le> capacity img"
    and short: "length p < 2 ^ 32"
  shows "decodeInvisible (img\<lparr>pixels := write_bits 0 (encode_bitstream p) (pixels img)\<rparr>) =
           (if utf8_valid p then Inr (Some p) else Inr None)"
proof -
  define bits where "bits = encode_bitstream p"
  have len: "length bits = 32 + 8 * length p"
    by (simp add: bits_def length_encode_bitstream)
  have room: "length bits \<le> 3 * length (pixels img)"
    using wf fits by (simp add: len well_formed_def capacity_def pixel_count_def)
  have declared: "prefix_value (length_prefix (length p)) = length p"
    using short by (simp add: prefix_value_length_prefix)
  have pre: "read_bits (write_bits 0 bits (pixels img)) 0 32 = Some (length_prefix (length p))"
    using read_bits_write_bits [OF room, of 0 32]
    by (simp add: len bits_def encode_bitstream_def length_length_prefix)
  have "read_bits (write_bits 0 bits (pixels img)) 32 (8 * length p) =
          Some (take (8 * length p) (drop 32 bits))"
    by (intro read_bits_write_bits [OF room]) (simp add: len)
  also have "drop 32 bits = concat (map char_bits p)"
    by (simp add: bits_def encode_bitstream_def length_length_prefix)
  finally have body: "read_bits (write_bits 0 bits (pixels img)) 32 (8 * length p) =
          Some (concat (map char_bits p))"
    by (simp add: length_concat_char_bits)
  have inside: "\<not> capacity_bytes img < length p"
    using fits by (simp add: capacity_bytes_less_iff)
  show ?thesis
    unfolding bits_def [symmetric]
    using inside
    by (simp add: decodeInvisible_def Let_def pre declared body bits_chars_concat
        capacity_bytes_def)
qed

text \<open>
  Claim C2. For every image, that is every well-formed buffer, and every non-empty
  payload whose encoded bit length (the 32 bits of the prefix and 8 bits for each UTF-8
  byte) is at most the capacity of the image, embedding succeeds and decoding the result
  returns the payload. A payload is a text in its UTF-8 form, so its bytes are
  well-formed UTF-8, and its byte length is one that the 32 bits of the prefix can hold.
\<close>

theorem roundtrip:
  assumes "well_formed img" and "payload \<noteq> []" and "utf8_valid payload"
      and "length payload < 2 ^ 32"
      and "length (encode_bitstream payload) \<le> capacity img"
  shows "\<exists>img'. embedInvisible img payload = Inr img' \<and>
                 decodeInvisible img' = Inr (Some payload)"
proof -
  have fits: "32 + 8 * length payload \<le> capacity img"
    using assms(5) by (simp add: length_encode_bitstream)
  show ?thesis
    using embedInvisible_fits [OF fits] decode_embedded [OF assms(1) fits assms(4)] assms(3)
    by simp
qed

theorem roundtrip_witness:
  "well_formed sample_image \<and> ''ab'' \<noteq> [] \<and> utf8_valid ''ab'' \<and>
   length ''ab'' < (2::nat) ^ 32 \<and>
   length (encode_bitstream ''ab'') = capacity sample_image \<and>
   (\<exists>img'. embedInvisible sample_image ''ab'' = Inr img' \<and>
            decodeInvisible img' = Inr (Some ''ab''))"
  using roundtrip [of sample_image "''ab''"]
  by (simp add: well_formed_def sample_image_def capacity_def pixel_count_def
      length_encode_bitstream utf8_valid_def)

subsection \<open>Capacity\<close>

text \<open>
  Claim C3. \<^verbatim>\<open>embedInvisible\<close> fails, with Capacity Exceeded and no other error,
  exactly when the 32 bits of the prefix and the 8 bits for each payload byte exceed
  three times the pixel count. When they fit, it succeeds and every bit of the encoded
  stream can be read back from the result: nothing is truncated. A payload whose bit
  length equals the capacity succeeds, one bit more fails, and the payload
  \<^verbatim>\<open>hello\<close> fails on every 2 \<times> 2 image.
\<close>

theorem embedInvisible_capacity:
  "(embedInvisible img payload = Inl CapacityExceeded \<longleftrightarrow>
      32 + 8 * length payload > 3 * (width img * height img)) \<and>
   embedInvisible img payload \<noteq> Inl OutOfBounds \<and>
   (32 + 8 * length payload \<le> 3 * (width img * height img) \<longrightarrow>
      (\<exists>img'. embedInvisible img payload = Inr img' \<and>
         (well_formed img \<longrightarrow>
            read_bits (pixels img') 0 (32 + 8 * length payload) = Some (encode_bitstream payload)))) \<and>
   (32 + 8 * length payload = capacity img \<longrightarrow> (\<exists>img'. embedInvisible img payload = Inr img')) \<and>
   (32 + 8 * length payload = capacity img + 1 \<longrightarrow>
      embedInvisible img payload = Inl CapacityExceeded) \<and>
   (width img = 2 \<and> height img = 2 \<longrightarrow> embedInvisible img ''hello'' = Inl CapacityExceeded)"
proof -
  have cap: "capacity img = 3 * (width img * height img)"
    by (simp add: capacity_def pixel_count_def)
  have iff: "embedInvisible img payload = Inl CapacityExceeded \<longleftrightarrow>
      32 + 8 * length payload > 3 * (width img * height img)"
    by (simp add: embedInvisible_def Let_def length_encode_bitstream cap)
  have only: "embedInvisible img payload \<noteq> Inl OutOfBounds"
    by (simp add: embedInvisible_def Let_def)
  have whole: "\<exists>img'. embedInvisible img payload = Inr img' \<and>
         (well_formed img \<longrightarrow>
            read_bits (pixels img') 0 (32 + 8 * length payload) = Some (encode_bitstream payload))"
    if fits: "32 + 8 * length payload \<le> 3 * (width img * height img)"
  proof -
    have fits': "32 + 8 * length payload \<le> capacity img"
      using fits by (simp add: cap)
    have "read_bits (write_bits 0 (encode_bitstream payload) (pixels img)) 0
            (32 + 8 * length payload) = Some (encode_bitstream payload)"
      if wf: "well_formed img"
    proof -
      have room: "length (encode_bitstream payload) \<le> 3 * length (pixels img)"
        using wf fits by (simp add: well_formed_def length_encode_bitstream)
      show ?thesis
        using read_bits_write_bits [OF room, of 0 "32 + 8 * length payload"]
        by (simp add: length_encode_bitstream)
    qed
    then show ?thesis
      by (simp add: embedInvisible_fits [OF fits'])
  qed
  have exact: "\<exists>img'. embedInvisible img payload = Inr img'"
    if "32 + 8 * length payload = capacity img"
    using that by (simp add: embedInvisible_fits)
  have over: "embedInvisible img payload = Inl CapacityExceeded"
    if "32 + 8 * length payload = capacity img + 1"
    using that by (simp add: embedInvisible_exceeds)
  have hello: "embedInvisible img ''hello'' = Inl CapacityExceeded"
    if "width img = 2 \<and> height img = 2"
    using that by (intro embedInvisible_exceeds) (simp add: cap)
  show ?thesis
    by (intro conjI impI iff only whole exact over hello; simp)
qed

theorem embedInvisible_capacity_witness:
  "32 + 8 * length ''ab'' = capacity sample_image \<and> well_formed sample_image \<and>
   \<not> isl (embedInvisible sample_image ''ab'') \<and>
   read_bits (pixels (projr (embedInvisible sample_image ''ab''))) 0 48 =
     Some (encode_bitstream ''ab'') \<and>
   32 + 8 * length ''a'' = capacity strip_image + 1 \<and>
   embedInvisible strip_image ''a'' = Inl CapacityExceeded \<and>
   width tiny_image = 2 \<and> height tiny_image = 2 \<and> capacity tiny_image = 12 \<and>
   embedInvisible tiny_image ''hello'' = Inl CapacityExceeded"
proof -
  have a: "32 + 8 * length ''ab'' = capacity sample_image" "well_formed sample_image"
    by (simp_all add: capacity_def pixel_count_def sample_image_def well_formed_def)
  have b: "32 + 8 * length ''a'' = capacity strip_image + 1"
    by (simp add: capacity_def pixel_count_def strip_image_def)
  have c: "width tiny_image = 2 \<and> height tiny_image = 2" "capacity tiny_image = 12"
    by (simp_all add: tiny_image_def capacity_def pixel_count_def)
  have d: "32 + 8 * length ''ab'' \<le> 3 * (width sample_image * height sample_image)"
    by (simp add: sample_image_def)
  note sample = embedInvisible_capacity [of sample_image "''ab''"]
  from sample [THEN conjunct2, THEN conjunct2, THEN conjunct1, THEN mp, OF d] a(2)
  obtain img' where e: "embedInvisible sample_image ''ab'' = Inr img'"
    and r: "read_bits (pixels img') 0 (32 + 8 * length ''ab'') = Some (encode_bitstream ''ab'')"
    by blast
  from e r have first: "\<not> isl (embedInvisible sample_image ''ab'')"
    "read_bits (pixels (projr (embedInvisible sample_image ''ab''))) 0 48 =
       Some (encode_bitstream ''ab'')"
    by simp_all
  note strip = embedInvisible_capacity [of strip_image "''a''"]
  have second: "embedInvisible strip_image ''a'' = Inl CapacityExceeded"
    by (rule strip [THEN conjunct2, THEN conjunct2, THEN conjunct2, THEN conjunct2,
          THEN conjunct1, THEN mp, OF b])
  note tiny = embedInvisible_capacity [of tiny_image "''hello''"]
  have third: "embedInvisible tiny_image ''hello'' = Inl CapacityExceeded"
    by (rule tiny [THEN conjunct2, THEN conjunct2, THEN conjunct2, THEN conjunct2,
          THEN conjunct2, THEN mp, OF c(1)])
  show ?thesis
    using a b c first second third by simp
qed

subsection \<open>The decoder and the bounds of the buffer\<close>

















subsection \<open>Visual near-invariance\<close>

text \<open>
  Claim C5. When \<^verbatim>\<open>embedInvisible\<close> succeeds, the result has the dimensions and the
  number of pixels of the input, every alpha value is unchanged, and each red, green
  and blue value keeps all bits above the least significant one, so that it changes by
  at most 1.
\<close>

theorem embedInvisible_near_invariant:
  assumes "embedInvisible img payload = Inr img'"
  shows "width img' = width img \<and> height img' = height img \<and>
         length (pixels img') = length (pixels img) \<and>
         (\<forall>i < length (pixels img).
            alpha (pixels img' ! i) = alpha (pixels img ! i) \<and>
            (\<forall>ch \<in> {red, green, blue}.
               drop_bit 1 (ch (pixels img' ! i)) = drop_bit 1 (ch (pixels img ! i)) \<and>
               \<bar>int (unat (ch (pixels img' ! i))) - int (unat (ch (pixels img ! i)))\<bar> \<le> 1))"
proof -
  from assms have img': "img' = img\<lparr>pixels := write_bits 0 (encode_bitstream payload) (pixels img)\<rparr>"
    by (simp add: embedInvisible_def Let_def split: if_splits)
  have px: "pixels img' = write_bits 0 (encode_bitstream payload) (pixels img)"
    by (simp add: img')
  have pixel: "alpha (pixels img' ! i) = alpha (pixels img ! i) \<and>
      (\<forall>ch \<in> {red, green, blue}.
         drop_bit 1 (ch (pixels img' ! i)) = drop_bit 1 (ch (pixels img ! i)) \<and>
         \<bar>int (unat (ch (pixels img' ! i))) - int (unat (ch (pixels img ! i)))\<bar> \<le> 1)"
    if i: "i < length (pixels img)" for i
  proof -
    note w = write_bits_nth [OF i, of 0 "encode_bitstream payload", folded px]
    have r: "drop_bit 1 (red (pixels img' ! i)) = drop_bit 1 (red (pixels img ! i))"
      using w [THEN conjunct2, rule_format, of 0] by (simp add: channel_def)
    have g: "drop_bit 1 (green (pixels img' ! i)) = drop_bit 1 (green (pixels img ! i))"
      using w [THEN conjunct2, rule_format, of 1] by (simp add: channel_def)
    have b: "drop_bit 1 (blue (pixels img' ! i)) = drop_bit 1 (blue (pixels img ! i))"
      using w [THEN conjunct2, rule_format, of 2] by (simp add: channel_def)
    show ?thesis
      using w [THEN conjunct1] r g b close_bytes [OF r] close_bytes [OF g] close_bytes [OF b]
      by simp
  qed
  show ?thesis
    using pixel by (simp add: img' length_write_bits)
qed

lemma embedded_sample:
  "embedInvisible sample_image ''ab'' = Inr (projr (embedInvisible sample_image ''ab''))"
proof -
  have "32 + 8 * length ''ab'' \<le> capacity sample_image"
    by (simp add: capacity_def pixel_count_def sample_image_def)
  then show ?thesis
    by (simp only: embedInvisible_fits sum.sel)
qed

lemma sample_pixel_1:
  "length (pixels sample_image) = 16"
  "pixels sample_image ! Suc 0 = \<lparr>red = 17, green = 34, blue = 238, alpha = 200\<rparr>"
  by (simp_all add: sample_image_def)

theorem embedInvisible_near_invariant_witness:
  "embedInvisible sample_image ''ab'' = Inr (projr (embedInvisible sample_image ''ab'')) \<and>
   length (pixels (projr (embedInvisible sample_image ''ab''))) = 16 \<and>
   alpha (pixels (projr (embedInvisible sample_image ''ab'')) ! 1) = 200 \<and>
   drop_bit 1 (red (pixels (projr (embedInvisible sample_image ''ab'')) ! 1)) = 8 \<and>
   \<bar>int (unat (green (pixels (projr (embedInvisible sample_image ''ab'')) ! 1))) - 34\<bar> \<le> 1"
proof -
  note inv = embedInvisible_near_invariant [OF embedded_sample]
  have len: "length (pixels (projr (embedInvisible sample_image ''ab''))) = 16"
    using inv [THEN conjunct2, THEN conjunct2, THEN conjunct1]
    by (simp only: sample_pixel_1)
  have "(1::nat) < length (pixels sample_image)"
    by (simp add: sample_pixel_1)
  from inv [THEN conjunct2, THEN conjunct2, THEN conjunct2, rule_format, OF this]
  have px: "alpha (pixels (projr (embedInvisible sample_image ''ab'')) ! 1) = 200"
    "drop_bit 1 (red (pixels (projr (embedInvisible sample_image ''ab'')) ! 1)) = 8"
    "\<bar>int (unat (green (pixels (projr (embedInvisible sample_image ''ab'')) ! 1))) - 34\<bar> \<le> 1"
    by (simp_all add: sample_pixel_1 drop_bit_eq_div)
  show ?thesis
    by (intro conjI embedded_sample len px)
qed

end
